theory Spec2Isabelle
  imports Complex_Main "HOL-Library.Word"
begin

section \<open>Backend pool and round-robin selection (internal/balancer/balancer.go)\<close>

text \<open>
  A backend is its address and its liveness flag. The code compares addresses through
  \<^verbatim>\<open>Address.String()\<close> only, so an address is represented by that string. The atomic
  flag \<^verbatim>\<open>IsAlive\<close> is a boolean; calls are taken one at a time.
\<close>

record Backend =
  Address :: string
  IsAlive :: bool

text \<open>
  \<^verbatim>\<open>currentIndex\<close> is a \<^verbatim>\<open>uint32\<close>: \<^verbatim>\<open>atomic.AddUint32\<close> wraps around at \<open>2 ^ 32\<close>.
  The logger and the health-check periods play no part in selection and are left out.
\<close>

record RoundRobinLoadBalancer =
  backends :: "Backend list"
  currentIndex :: "32 word"

text \<open>What a Go run-time panic would be is a value of the model.\<close>

datatype panic = DivideByZero | IndexOutOfRange

text \<open>
  The loop of \<^verbatim>\<open>NextAvailableBackend\<close>, by the number of attempts that remain
  (\<^verbatim>\<open>total - attempt\<close>). Each attempt adds one to the cursor, reduces the new value
  modulo \<^verbatim>\<open>uint32(total)\<close> and reads the backend there. The returned pointer is modelled
  by the position of the backend in the pool: every backend is allocated once, at
  construction, so pointers and positions correspond.
\<close>

fun selectLoop ::
  "nat \<Rightarrow> RoundRobinLoadBalancer \<Rightarrow> panic + (nat option \<times> RoundRobinLoadBalancer)" where
  "selectLoop 0 lb = Inr (None, lb)"
| "selectLoop (Suc remaining) lb =
     (let cursor = currentIndex lb + 1;
          lb' = lb\<lparr>currentIndex := cursor\<rparr>;
          total32 = (of_nat (length (backends lb)) :: 32 word)
      in if total32 = 0 then Inl DivideByZero
         else let index = unat (cursor mod total32)
              in if length (backends lb) \<le> index then Inl IndexOutOfRange
                 else if IsAlive (backends lb ! index) then Inr (Some index, lb')
                 else selectLoop remaining lb')"

definition NextAvailableBackend ::
  "RoundRobinLoadBalancer \<Rightarrow> panic + (nat option \<times> RoundRobinLoadBalancer)" where
  "NextAvailableBackend lb = selectLoop (length (backends lb)) lb"

text \<open>
  \<^verbatim>\<open>MarkBackendUnhealthy\<close>: the first backend whose address has the target's string form
  is marked dead, and the loop returns.
\<close>

fun markFirst :: "string \<Rightarrow> Backend list \<Rightarrow> Backend list" where
  "markFirst target [] = []"
| "markFirst target (b # bs) =
     (if Address b = target then b\<lparr>IsAlive := False\<rparr> # bs else b # markFirst target bs)"

definition MarkBackendUnhealthy ::
  "string \<Rightarrow> RoundRobinLoadBalancer \<Rightarrow> RoundRobinLoadBalancer" where
  "MarkBackendUnhealthy target lb = lb\<lparr>backends := markFirst target (backends lb)\<rparr>"

text \<open>
  A driver for consecutive sequential calls: the results of \<open>k\<close> calls of
  \<^verbatim>\<open>NextAvailableBackend\<close>, each on the state the previous one left. A panic ends the run.
\<close>

fun selections :: "nat \<Rightarrow> RoundRobinLoadBalancer \<Rightarrow> panic + (nat option list \<times> RoundRobinLoadBalancer)" where
  "selections 0 lb = Inr ([], lb)"
| "selections (Suc k) lb =
     (case NextAvailableBackend lb of
        Inl p \<Rightarrow> Inl p
      | Inr (r, lb') \<Rightarrow>
          (case selections k lb' of
             Inl p \<Rightarrow> Inl p
           | Inr (rs, lb'') \<Rightarrow> Inr (r # rs, lb'')))"

section \<open>Token bucket (package ratelimiter)\<close>

text \<open>
  The binary is built for \<^verbatim>\<open>GOARCH=amd64\<close>, so a Go \<^verbatim>\<open>int\<close> is a 64-bit two's complement
  integer: \<open>+\<close> and \<open>-\<close> wrap around, and comparisons are the signed ones (\<open><s\<close>).
  A \<^verbatim>\<open>time.Time\<close> is a reading of the clock in nanoseconds; a \<^verbatim>\<open>time.Duration\<close> is a
  number of nanoseconds. Every \<^verbatim>\<open>time.Now()\<close> of the code is a parameter of the model.
\<close>

type_synonym Time = int
type_synonym Duration = int

text \<open>\<^verbatim>\<open>Time.Sub\<close> saturates at the largest and the smallest \<^verbatim>\<open>Duration\<close>.\<close>

definition time_Sub :: "Time \<Rightarrow> Time \<Rightarrow> Duration" where
  "time_Sub t u =
     (let d = t - u
      in if d > 9223372036854775807 then 9223372036854775807
         else if d < - 9223372036854775808 then - 9223372036854775808
         else d)"

text \<open>
  \<^verbatim>\<open>Duration.Seconds\<close> and the product \<^verbatim>\<open>elapsed * float64(tb.RefillRate)\<close> are computed by
  the code in \<^verbatim>\<open>float64\<close>. A \<^verbatim>\<open>float64\<close> value is modelled by the rational number it stands
  for, and every operation of the code (conversion from an integer, division, addition,
  multiplication) by the exact operation followed by \<open>float64\<close>, the rounding to the
  nearest number with 53 significant bits, ties to the even one. The numbers that occur
  are zero or lie between \<open>10\<^sup>-\<^sup>9\<close> and \<open>10\<^sup>2\<^sup>9\<close> in size, inside the normal range of the format,
  so that the exponent needs no bound.
\<close>

text \<open>The number of binary digits of a positive integer.\<close>

function bits :: "int \<Rightarrow> nat" where
  "bits n = (if n \<le> 0 then 0 else Suc (bits (n div 2)))"
  by pat_completeness auto
termination
  by (relation "measure nat") auto

declare bits.simps [simp del]

text \<open>For \<open>x > 0\<close>: the integer \<open>l\<close> with \<open>2\<^sup>l \<le> x < 2\<^sup>l\<^sup>+\<^sup>1\<close>.\<close>

definition ilog2 :: "rat \<Rightarrow> int" where
  "ilog2 x =
     (if 1 \<le> x then int (bits \<lfloor>x\<rfloor>) - 1 else - int (bits (\<lceil>1 / x\<rceil> - 1)))"

text \<open>The nearest integer, the even one of two that are equally near.\<close>

definition roundToEven :: "rat \<Rightarrow> int" where
  "roundToEven x =
     (let f = \<lfloor>x\<rfloor>; r = x - of_int f
      in if r < 1 / 2 then f else if 1 / 2 < r then f + 1 else if even f then f else f + 1)"

definition float64 :: "rat \<Rightarrow> rat" where
  "float64 x =
     (if x = 0 then 0
      else let e = ilog2 \<bar>x\<bar> - 52
           in of_int (roundToEven (x * 2 powi (- e))) * 2 powi e)"

text \<open>
  \<^verbatim>\<open>Duration.Seconds\<close>: \<^verbatim>\<open>sec := d / Second; nsec := d % Second\<close>, with Go's division and
  remainder of integers, which truncate towards zero, and then
  \<^verbatim>\<open>float64(sec) + float64(nsec)/1e9\<close>.
\<close>

definition Seconds :: "Duration \<Rightarrow> rat" where
  "Seconds d =
     (let sec = sgn d * (\<bar>d\<bar> div 1000000000);
          nsec = sgn d * (\<bar>d\<bar> mod 1000000000)
      in float64 (float64 (of_int sec) + float64 (float64 (of_int nsec) / 1000000000)))"

text \<open>
  The conversion \<^verbatim>\<open>int(f)\<close> truncates towards zero. Where the truncated value is not a
  64-bit integer, Go leaves the result to the implementation; on amd64 it is the smallest
  integer.
\<close>

definition int_of_float :: "rat \<Rightarrow> 64 word" where
  "int_of_float x =
     (let t = (if 0 \<le> x then \<lfloor>x\<rfloor> else \<lceil>x\<rceil>)
      in if - 9223372036854775808 \<le> t \<and> t \<le> 9223372036854775807 then word_of_int t
         else - 9223372036854775808)"

text \<open>The package's own \<^verbatim>\<open>min\<close>.\<close>

definition min_go :: "64 word \<Rightarrow> 64 word \<Rightarrow> 64 word" where
  "min_go a b = (if a <s b then a else b)"

record TokenBucket =
  Capacity :: "64 word"
  Tokens :: "64 word"
  RefillRate :: "64 word"
  lastRefill :: Time
  lastSeen :: Time

definition NewTokenBucket :: "64 word \<Rightarrow> 64 word \<Rightarrow> Time \<Rightarrow> TokenBucket" where
  "NewTokenBucket capacity refillRate now =
     \<lparr>Capacity = capacity, Tokens = capacity, RefillRate = refillRate,
      lastRefill = now, lastSeen = now\<rparr>"

definition refill :: "Time \<Rightarrow> TokenBucket \<Rightarrow> TokenBucket" where
  "refill now tb =
     (let elapsed = Seconds (time_Sub now (lastRefill tb));
          tokensToAdd = int_of_float (float64 (elapsed * float64 (of_int (sint (RefillRate tb)))))
      in if 0 <s tokensToAdd
         then tb\<lparr>Tokens := min_go (Capacity tb) (Tokens tb + tokensToAdd), lastRefill := now\<rparr>
         else tb)"

text \<open>
  \<^verbatim>\<open>TokenBucket.Allow\<close> reads the clock twice: in \<^verbatim>\<open>refill\<close> (\<open>now\<close>) and for
  \<^verbatim>\<open>lastSeen\<close> (\<open>now'\<close>). The mutex is held for the whole call, so the call is one step.
\<close>

definition TokenBucket_Allow :: "Time \<Rightarrow> Time \<Rightarrow> TokenBucket \<Rightarrow> bool \<times> TokenBucket" where
  "TokenBucket_Allow now now' tb =
     (let tb1 = refill now tb;
          tb2 = tb1\<lparr>lastSeen := now'\<rparr>
      in if 0 <s Tokens tb2 then (True, tb2\<lparr>Tokens := Tokens tb2 - 1\<rparr>)
         else (False, tb2))"

text \<open>
  A driver for a sequence of calls on one bucket: the answers of \<^verbatim>\<open>Allow\<close> at the given
  pairs of clock readings, each call on the bucket the previous one left.
\<close>

fun allows :: "(Time \<times> Time) list \<Rightarrow> TokenBucket \<Rightarrow> bool list \<times> TokenBucket" where
  "allows [] tb = ([], tb)"
| "allows ((now, now') # ts) tb =
     (let (ok, tb') = TokenBucket_Allow now now' tb;
          (oks, tb'') = allows ts tb'
      in (ok # oks, tb''))"

text \<open>The range the data model gives for the number of tokens.\<close>

definition tokens_in_range :: "TokenBucket \<Rightarrow> bool" where
  "tokens_in_range tb = (0 \<le>s Tokens tb \<and> Tokens tb \<le>s Capacity tb)"

section \<open>Rate limiter registry (package ratelimiter)\<close>

record ClientLimit =
  limitCapacity :: "64 word"
  limitRefillRate :: "64 word"

text \<open>
  The map of buckets holds pointers; calls being taken one at a time, the bucket a call
  works on is the one stored under the client, and the model writes it back there.
\<close>

record RateLimiter =
  buckets :: "string \<rightharpoonup> TokenBucket"
  clientLimits :: "string \<rightharpoonup> ClientLimit"
  defaultCapacity :: "64 word"
  defaultRefillRate :: "64 word"

definition NewRateLimiter :: "64 word \<Rightarrow> 64 word \<Rightarrow> RateLimiter" where
  "NewRateLimiter capacity refillRate =
     \<lparr>buckets = Map.empty, clientLimits = Map.empty,
      defaultCapacity = capacity, defaultRefillRate = refillRate\<rparr>"

definition SetClientLimit :: "string \<Rightarrow> ClientLimit \<Rightarrow> RateLimiter \<Rightarrow> RateLimiter" where
  "SetClientLimit clientID limit rl = rl\<lparr>clientLimits := (clientLimits rl)(clientID \<mapsto> limit)\<rparr>"

definition getBucket :: "string \<Rightarrow> Time \<Rightarrow> RateLimiter \<Rightarrow> TokenBucket \<times> RateLimiter" where
  "getBucket clientID now rl =
     (case buckets rl clientID of
        Some bucket \<Rightarrow> (bucket, rl)
      | None \<Rightarrow>
          (let limit = (case clientLimits rl clientID of
                          Some l \<Rightarrow> l
                        | None \<Rightarrow> \<lparr>limitCapacity = defaultCapacity rl,
                                    limitRefillRate = defaultRefillRate rl\<rparr>);
               bucket = NewTokenBucket (limitCapacity limit) (limitRefillRate limit) now
           in (bucket, rl\<lparr>buckets := (buckets rl)(clientID \<mapsto> bucket)\<rparr>)))"

text \<open>
  \<^verbatim>\<open>RateLimiter.Allow\<close>. The three clock readings are those of \<^verbatim>\<open>NewTokenBucket\<close> (used
  only when the bucket is created), of \<^verbatim>\<open>refill\<close> and of \<^verbatim>\<open>TokenBucket.Allow\<close>.
\<close>

definition RateLimiter_Allow ::
  "string \<Rightarrow> Time \<times> Time \<times> Time \<Rightarrow> RateLimiter \<Rightarrow> bool \<times> RateLimiter" where
  "RateLimiter_Allow clientID clock rl =
     (case clock of (tNew, tRefill, tSeen) \<Rightarrow>
        (let (bucket, rl') = getBucket clientID tNew rl;
             (ok, bucket') = TokenBucket_Allow tRefill tSeen bucket
         in (ok, rl'\<lparr>buckets := (buckets rl')(clientID \<mapsto> bucket')\<rparr>)))"

definition Cleanup :: "Duration \<Rightarrow> Time \<Rightarrow> RateLimiter \<Rightarrow> RateLimiter" where
  "Cleanup expiration now rl =
     rl\<lparr>buckets :=
          (\<lambda>clientID. case buckets rl clientID of
                         None \<Rightarrow> None
                       | Some bucket \<Rightarrow>
                           if time_Sub now (lastSeen bucket) > expiration then None
                           else Some bucket)\<rparr>"

section \<open>Client identity (extractClientIP of package ratelimiter, getClientIP of package proxy)\<close>

text \<open>
  The functions of Go's standard library that the two identity functions call, as far as
  the code uses them. Strings are byte strings. \<^verbatim>\<open>Header.Get\<close> gives the first value
  stored under a key and the empty string where there is none; the map is keyed by the
  header names as the code spells them. \<^verbatim>\<open>strings.TrimSpace\<close> is modelled for the ASCII
  white space (tab, line feed, vertical tab, form feed, carriage return, space).
\<close>

record Request =
  Header :: "string \<rightharpoonup> string list"
  RemoteAddr :: string

definition Header_Get :: "(string \<rightharpoonup> string list) \<Rightarrow> string \<Rightarrow> string" where
  "Header_Get h key = (case h key of None \<Rightarrow> [] | Some [] \<Rightarrow> [] | Some (v # _) \<Rightarrow> v)"

definition isSpace :: "char \<Rightarrow> bool" where
  "isSpace c = (c \<in> {CHR 0x09, CHR 0x0A, CHR 0x0B, CHR 0x0C, CHR 0x0D, CHR '' ''})"

definition TrimSpace :: "string \<Rightarrow> string" where
  "TrimSpace s = rev (dropWhile isSpace (rev (dropWhile isSpace s)))"

text \<open>\<^verbatim>\<open>strings.Split\<close> for a separator of one byte: the fields between the separators.\<close>

fun Split :: "string \<Rightarrow> char \<Rightarrow> string list" where
  "Split [] sep = [[]]"
| "Split (c # cs) sep =
     (if c = sep then [] # Split cs sep
      else (case Split cs sep of
              [] \<Rightarrow> [[c]]
            | w # ws \<Rightarrow> (c # w) # ws))"

fun IndexByte :: "string \<Rightarrow> char \<Rightarrow> int" where
  "IndexByte [] c = - 1"
| "IndexByte (x # xs) c =
     (if x = c then 0 else (let i = IndexByte xs c in if i < 0 then - 1 else i + 1))"

definition LastIndexByte :: "string \<Rightarrow> char \<Rightarrow> int" where
  "LastIndexByte s c =
     (let i = IndexByte (rev s) c in if i < 0 then - 1 else int (length s) - 1 - i)"

text \<open>
  \<^verbatim>\<open>net.SplitHostPort\<close>: host and port, or \<open>None\<close> for an address error. The port starts
  after the last colon; a host in brackets ends at the first closing bracket, which must
  be just before that colon.
\<close>

definition SplitHostPort :: "string \<Rightarrow> (string \<times> string) option" where
  "SplitHostPort hostport =
     (let i = LastIndexByte hostport (CHR '':'')
      in if i < 0 then None
         else if take 1 hostport = ''[''
         then (let e = IndexByte hostport (CHR '']'')
               in if e < 0 then None
                  else if e + 1 = int (length hostport) then None
                  else if e + 1 = i
                  then (if 0 \<le> IndexByte (drop 1 hostport) (CHR ''['') then None
                        else if 0 \<le> IndexByte (drop (nat (e + 1)) hostport) (CHR '']'') then None
                        else Some (take (nat e - 1) (drop 1 hostport), drop (nat (i + 1)) hostport))
                  else None)
         else (let host = take (nat i) hostport
               in if 0 \<le> IndexByte host (CHR '':'') then None
                  else if 0 \<le> IndexByte hostport (CHR ''['') then None
                  else if 0 \<le> IndexByte hostport (CHR '']'') then None
                  else Some (host, drop (nat (i + 1)) hostport)))"

text \<open>\<^verbatim>\<open>ip, _, _ := net.SplitHostPort(r.RemoteAddr)\<close>: the host, empty on an error.\<close>

definition remoteHost :: "Request \<Rightarrow> string" where
  "remoteHost r = (case SplitHostPort (RemoteAddr r) of None \<Rightarrow> [] | Some (host, port) \<Rightarrow> host)"

text \<open>The identity function of the rate-limiting middleware.\<close>

definition extractClientIP :: "Request \<Rightarrow> string" where
  "extractClientIP r =
     (let ip = Header_Get (Header r) ''X-Real-IP'';
          ip = (if ip = [] then Header_Get (Header r) ''X-Forwarded-For'' else ip);
          ip = (if ip = [] then remoteHost r else ip)
      in TrimSpace ip)"

text \<open>The identity function of the proxy handler, which uses it for its log line.\<close>

definition getClientIP :: "Request \<Rightarrow> string" where
  "getClientIP r =
     (if Header_Get (Header r) ''X-Real-IP'' \<noteq> []
      then TrimSpace (Header_Get (Header r) ''X-Real-IP'')
      else if Header_Get (Header r) ''X-Forwarded-For'' \<noteq> []
      then TrimSpace (hd (Split (Header_Get (Header r) ''X-Forwarded-For'') (CHR '','')))
      else TrimSpace (remoteHost r))"

section \<open>Dispatcher (package proxy and the middleware of package ratelimiter)\<close>

text \<open>
  A response is its status code, its content type and its body. \<^verbatim>\<open>sendJSONError\<close> writes
  the JSON encoding of an \<^verbatim>\<open>errorResponse\<close>, an object with the fields \<^verbatim>\<open>code\<close> and
  \<^verbatim>\<open>message\<close>; \<^verbatim>\<open>http.Error\<close> writes its text and a line feed as plain text. What a
  backend answered is passed on as it is.
\<close>

record errorResponse =
  Code :: int
  Message :: string

datatype Body = JSONBody errorResponse | TextBody string | UpstreamBody string

record Response =
  StatusCode :: int
  ContentType :: string
  ResponseBody :: Body

definition sendJSONError :: "int \<Rightarrow> string \<Rightarrow> Response" where
  "sendJSONError statusCode message =
     \<lparr>StatusCode = statusCode, ContentType = ''application/json'',
      ResponseBody = JSONBody \<lparr>Code = statusCode, Message = message\<rparr>\<rparr>"

definition http_Error :: "string \<Rightarrow> int \<Rightarrow> Response" where
  "http_Error error code =
     \<lparr>StatusCode = code, ContentType = ''text/plain; charset=utf-8'',
      ResponseBody = TextBody (error @ [CHR 0x0A])\<rparr>"

text \<open>
  Forwarding is outside the model: \<open>roundTrip\<close> tells, for the address of the chosen
  backend and the request, whether the backend answered or the transport failed.
\<close>

datatype RoundTrip = Answered Response | TransportError

definition handleProxy ::
  "(string \<Rightarrow> Request \<Rightarrow> RoundTrip) \<Rightarrow> Request \<Rightarrow> RoundRobinLoadBalancer
     \<Rightarrow> panic + (Response \<times> RoundRobinLoadBalancer)" where
  "handleProxy roundTrip r lb =
     (case NextAvailableBackend lb of
        Inl p \<Rightarrow> Inl p
      | Inr (None, lb') \<Rightarrow> Inr (sendJSONError 503 ''No available backends'', lb')
      | Inr (Some target, lb') \<Rightarrow>
          (case roundTrip (Address (backends lb' ! target)) r of
             TransportError \<Rightarrow>
               Inr (sendJSONError 503 ''Backend unavailable'',
                    MarkBackendUnhealthy (Address (backends lb' ! target)) lb')
           | Answered response \<Rightarrow> Inr (response, lb')))"

text \<open>
  \<^verbatim>\<open>RateLimitMiddleware\<close> around a handler \<open>next\<close> that works on a state of its own.
\<close>

definition RateLimitMiddleware ::
  "Time \<times> Time \<times> Time \<Rightarrow> (Request \<Rightarrow> 's \<Rightarrow> panic + (Response \<times> 's)) \<Rightarrow> Request
     \<Rightarrow> RateLimiter \<times> 's \<Rightarrow> panic + (Response \<times> RateLimiter \<times> 's)" where
  "RateLimitMiddleware clock next r st =
     (case st of (rl, s) \<Rightarrow>
        (let clientID = extractClientIP r;
             (ok, rl') = RateLimiter_Allow clientID clock rl
         in if \<not> ok then Inr (http_Error ''Rate limit exceeded'' 429, rl', s)
            else (case next r s of
                    Inl p \<Rightarrow> Inl p
                  | Inr (response, s') \<Rightarrow> Inr (response, rl', s'))))"

section \<open>Round-robin selection: properties\<close>

lemma pool_size_nonzero:
  "0 < n \<Longrightarrow> n < 2 ^ 32 \<Longrightarrow> (of_nat n :: 32 word) \<noteq> 0"
  by (auto simp add: word_of_nat_eq_0_iff dest: dvd_imp_le)

lemma index_mod_pool:
  "0 < n \<Longrightarrow> n < 2 ^ 32 \<Longrightarrow> unat ((c :: 32 word) mod of_nat n) = unat c mod n"
  by (simp add: unat_mod unat_of_nat)

lemma unat_of_nat_small: "m < 2 ^ 32 \<Longrightarrow> unat (of_nat m :: 32 word) = m"
  by (simp add: unat_of_nat)

text \<open>With every backend alive, a call makes one attempt and takes the backend under the
  incremented cursor.\<close>

lemma select_all_alive:
  assumes "\<forall>b \<in> set (backends lb). IsAlive b"
    and "0 < length (backends lb)" and "length (backends lb) < 2 ^ 32"
  shows "NextAvailableBackend lb =
           Inr (Some (unat (currentIndex lb + 1) mod length (backends lb)),
                lb\<lparr>currentIndex := currentIndex lb + 1\<rparr>)"
proof -
  let ?n = "length (backends lb)"
  let ?c = "currentIndex lb + 1"
  obtain k where k: "?n = Suc k"
    using assms(2) by (cases ?n) auto
  have nz: "(of_nat ?n :: 32 word) \<noteq> 0"
    using assms by (simp add: pool_size_nonzero)
  have idx: "unat (?c mod of_nat ?n) = unat ?c mod ?n"
    using assms by (simp add: index_mod_pool)
  have lt: "unat ?c mod ?n < ?n"
    using assms by simp
  have alive: "IsAlive (backends lb ! (unat ?c mod ?n))"
    using assms lt by simp
  have "selectLoop (Suc k) lb = Inr (Some (unat ?c mod ?n), lb\<lparr>currentIndex := ?c\<rparr>)"
    using nz idx lt alive by (simp add: Let_def)
  then show ?thesis
    by (simp add: NextAvailableBackend_def k [symmetric])
qed

lemma selections_all_alive:
  assumes "\<forall>b \<in> set (backends lb). IsAlive b"
    and "0 < length (backends lb)" and "length (backends lb) < 2 ^ 32"
  shows "selections k lb =
           Inr (map (\<lambda>j. Some (unat (currentIndex lb + of_nat (Suc j)) mod length (backends lb))) [0..<k],
                lb\<lparr>currentIndex := currentIndex lb + of_nat k\<rparr>)"
  using assms
proof (induction k arbitrary: lb)
  case 0
  then show ?case by simp
next
  case (Suc k)
  let ?lb' = "lb\<lparr>currentIndex := currentIndex lb + 1\<rparr>"
  let ?first = "Some (unat (currentIndex lb + 1) mod length (backends lb))"
  let ?rest = "map (\<lambda>j. Some (unat (currentIndex lb + 1 + of_nat (Suc j)) mod length (backends lb))) [0..<k]"
  have step: "NextAvailableBackend lb = Inr (?first, ?lb')"
    using Suc.prems by (rule select_all_alive)
  have rest: "selections k ?lb' = Inr (?rest, lb\<lparr>currentIndex := currentIndex lb + 1 + of_nat k\<rparr>)"
    using Suc.IH [of ?lb'] Suc.prems by simp
  have shift: "map (\<lambda>j. Some (unat (currentIndex lb + of_nat (Suc j)) mod length (backends lb))) [0..<Suc k]
                 = ?first # ?rest"
    by (simp add: upt_conv_Cons map_Suc_upt [symmetric] add.assoc del: upt_Suc)
  have "selections (Suc k) lb = Inr (?first # ?rest, lb\<lparr>currentIndex := currentIndex lb + 1 + of_nat k\<rparr>)"
    by (simp only: selections.simps step rest sum.case prod.case)
  also have "currentIndex lb + 1 + of_nat k = currentIndex lb + of_nat (Suc k)"
    by (simp add: add.assoc)
  finally show ?case by (simp only: shift)
qed

text \<open>A rotation of \<open>0, \<dots>, n - 1\<close> visits every position once.\<close>

lemma rotation_le:
  assumes "i \<le> j" and "j < n" and "(a + i) mod n = (a + j) mod (n::nat)"
  shows "i = j"
proof -
  have "n dvd (a + j) - (a + i)"
    using assms(1) assms(3) [symmetric] by (simp add: mod_eq_dvd_iff_nat)
  then have "n dvd j - i" by simp
  moreover have "j - i < n" using assms by simp
  ultimately have "j - i = 0"
    by (meson dvd_imp_le not_less zero_less_iff_neq_zero)
  then show ?thesis using assms by simp
qed

lemma rotation_inj: "inj_on (\<lambda>j. (a + j) mod n) {0..<n::nat}"
proof (rule inj_onI)
  fix i j
  assume "i \<in> {0..<n}" "j \<in> {0..<n}" "(a + i) mod n = (a + j) mod n"
  then show "i = j"
    using rotation_le [of i j n a] rotation_le [of j i n a] by (cases "i \<le> j") auto
qed

lemma rotation_covers:
  assumes "0 < (n::nat)"
  shows "distinct (map (\<lambda>j. (a + j) mod n) [0..<n]) \<and> set (map (\<lambda>j. (a + j) mod n) [0..<n]) = {0..<n}"
proof -
  let ?rs = "map (\<lambda>j. (a + j) mod n) [0..<n]"
  have d: "distinct ?rs"
    using rotation_inj [of a n] by (simp add: distinct_map)
  have sub: "set ?rs \<subseteq> {0..<n}"
    using assms by auto
  have "card (set ?rs) = n"
    using d distinct_card [of ?rs] by simp
  then have "set ?rs = {0..<n}"
    using sub by (simp add: card_subset_eq)
  with d show ?thesis by simp
qed

lemma cursor_no_wrap:
  assumes "unat (c :: 32 word) + n < 2 ^ 32" and "j < n"
  shows "unat (c + of_nat (Suc j)) = unat c + Suc j"
proof -
  have "Suc j < 2 ^ 32" using assms by simp
  then have u: "unat (of_nat (Suc j) :: 32 word) = Suc j"
    by (rule unat_of_nat_small)
  have "unat c + unat (of_nat (Suc j) :: 32 word) < 2 ^ LENGTH(32)"
    using assms u by simp
  then have "unat (c + of_nat (Suc j)) = unat c + unat (of_nat (Suc j) :: 32 word)"
    by (simp only: unat_add_lem)
  with u show ?thesis by simp
qed

text \<open>
  Coverage as long as the cursor does not pass \<open>2 ^ 32\<close> during the calls: with all \<open>N\<close>
  backends alive, \<open>N\<close> consecutive calls return every position once, in the order given
  by the cursor at the start, and each call adds one to the cursor.
\<close>

lemma round_robin_coverage_without_wrap:
  assumes "\<forall>b \<in> set (backends lb). IsAlive b"
    and "0 < length (backends lb)"
    and "unat (currentIndex lb) + length (backends lb) < 2 ^ 32"
  shows "\<exists>rs. selections (length (backends lb)) lb =
                Inr (map Some rs, lb\<lparr>currentIndex := currentIndex lb + of_nat (length (backends lb))\<rparr>) \<and>
              rs = map (\<lambda>j. (unat (currentIndex lb) + Suc j) mod length (backends lb)) [0..<length (backends lb)] \<and>
              distinct rs \<and> set rs = {0..<length (backends lb)}"
proof -
  let ?n = "length (backends lb)"
  let ?c = "currentIndex lb"
  let ?rs = "map (\<lambda>j. (unat ?c + Suc j) mod ?n) [0..<?n]"
  have small: "?n < 2 ^ 32" using assms(3) by simp
  have "map (\<lambda>j. Some (unat (?c + of_nat (Suc j)) mod ?n)) [0..<?n] = map Some ?rs"
    using cursor_no_wrap [OF assms(3)] by simp
  then have run: "selections ?n lb = Inr (map Some ?rs, lb\<lparr>currentIndex := ?c + of_nat ?n\<rparr>)"
    using selections_all_alive [OF assms(1,2) small, of ?n] by simp
  have "?rs = map (\<lambda>j. (Suc (unat ?c) + j) mod ?n) [0..<?n]" by simp
  then have "distinct ?rs \<and> set ?rs = {0..<?n}"
    using rotation_covers [OF assms(2), of "Suc (unat ?c)"] by simp
  with run show ?thesis by blast
qed

text \<open>
  C5 (round-robin coverage: with \<open>N\<close> backends, all alive, \<open>N\<close> consecutive calls return
  all \<open>N\<close> backends once each before any repeats). The cursor is a 32-bit counter. Three
  backends, all alive, and the cursor at \<open>2 ^ 32 - 3\<close>: the three calls read the cursor
  values \<open>2 ^ 32 - 2\<close>, \<open>2 ^ 32 - 1\<close> and \<open>0\<close>, and return the backends at the positions
  2, 0 and 0. The backend at position 0 is returned twice, the one at position 1 not at
  all.
\<close>

theorem round_robin_repeats_at_cursor_wrap:
  "selections 3
     \<lparr>backends = [\<lparr>Address = ''http://a:8081'', IsAlive = True\<rparr>,
                  \<lparr>Address = ''http://b:8082'', IsAlive = True\<rparr>,
                  \<lparr>Address = ''http://c:8083'', IsAlive = True\<rparr>],
      currentIndex = 4294967293\<rparr>
   = Inr ([Some 2, Some 0, Some 0],
          \<lparr>backends = [\<lparr>Address = ''http://a:8081'', IsAlive = True\<rparr>,
                       \<lparr>Address = ''http://b:8082'', IsAlive = True\<rparr>,
                       \<lparr>Address = ''http://c:8083'', IsAlive = True\<rparr>],
           currentIndex = 0\<rparr>)"
  by (simp add: numeral_3_eq_3 NextAvailableBackend_def Let_def)

lemma selectLoop_all_dead:
  assumes "\<forall>b \<in> set (backends lb). \<not> IsAlive b"
    and "0 < length (backends lb)" and "length (backends lb) < 2 ^ 32"
  shows "selectLoop k lb = Inr (None, lb\<lparr>currentIndex := currentIndex lb + of_nat k\<rparr>)"
  using assms
proof (induction k arbitrary: lb)
  case 0
  then show ?case by simp
next
  case (Suc k)
  let ?n = "length (backends lb)"
  let ?c = "currentIndex lb + 1"
  have nz: "(of_nat ?n :: 32 word) \<noteq> 0"
    using Suc.prems by (simp add: pool_size_nonzero)
  have idx: "unat (?c mod of_nat ?n) < ?n"
    using Suc.prems by (simp add: index_mod_pool)
  have dead: "\<not> IsAlive (backends lb ! unat (?c mod of_nat ?n))"
    using Suc.prems idx by simp
  have "selectLoop (Suc k) lb = selectLoop k (lb\<lparr>currentIndex := ?c\<rparr>)"
    using nz idx dead by (simp add: Let_def)
  also have "\<dots> = Inr (None, lb\<lparr>currentIndex := ?c + of_nat k\<rparr>)"
    using Suc.IH [of "lb\<lparr>currentIndex := ?c\<rparr>"] Suc.prems by simp
  finally show ?case by (simp add: add.assoc)
qed

text \<open>
  C6 (empty pool, or no backend alive: every call returns none). With an empty pool the
  loop body is not entered: no remainder is computed, the answer is none and the state is
  as before, whatever the cursor. With a pool of fewer than \<open>2 ^ 32\<close> backends, none of
  them alive, the call examines \<open>N\<close> positions, answers none and leaves the cursor
  advanced by \<open>N\<close>; no panic occurs, whatever the cursor.
\<close>

theorem no_backend_available:
  "(backends lb = [] \<longrightarrow> NextAvailableBackend lb = Inr (None, lb)) \<and>
   (backends lb \<noteq> [] \<and> length (backends lb) < 2 ^ 32 \<and> (\<forall>b \<in> set (backends lb). \<not> IsAlive b) \<longrightarrow>
      NextAvailableBackend lb =
        Inr (None, lb\<lparr>currentIndex := currentIndex lb + of_nat (length (backends lb))\<rparr>))"
  by (simp add: NextAvailableBackend_def selectLoop_all_dead)

theorem no_backend_available_witness:
  "NextAvailableBackend \<lparr>backends = [], currentIndex = 7\<rparr> = Inr (None, \<lparr>backends = [], currentIndex = 7\<rparr>) \<and>
   NextAvailableBackend
     \<lparr>backends = [\<lparr>Address = ''http://a:8081'', IsAlive = False\<rparr>,
                  \<lparr>Address = ''http://b:8082'', IsAlive = False\<rparr>],
      currentIndex = 7\<rparr>
   = Inr (None,
          \<lparr>backends = [\<lparr>Address = ''http://a:8081'', IsAlive = False\<rparr>,
                       \<lparr>Address = ''http://b:8082'', IsAlive = False\<rparr>],
           currentIndex = 9\<rparr>)"
  using no_backend_available [of "\<lparr>backends = [], currentIndex = 7\<rparr>"]
    no_backend_available
      [of "\<lparr>backends = [\<lparr>Address = ''http://a:8081'', IsAlive = False\<rparr>,
                         \<lparr>Address = ''http://b:8082'', IsAlive = False\<rparr>],
             currentIndex = 7\<rparr>"]
  by simp

section \<open>Failure feedback: properties\<close>

lemma markFirst_absent: "target \<notin> Address ` set bs \<Longrightarrow> markFirst target bs = bs"
  by (induction bs) auto

lemma markFirst_idem: "markFirst target (markFirst target bs) = markFirst target bs"
  by (induction bs) auto

lemma markFirst_addresses: "map Address (markFirst target bs) = map Address bs"
  by (induction bs) auto

lemma markFirst_other:
  "i < length bs \<Longrightarrow> Address (bs ! i) \<noteq> target \<Longrightarrow> markFirst target bs ! i = bs ! i"
proof (induction bs arbitrary: i)
  case Nil
  then show ?case by simp
next
  case (Cons b bs)
  then show ?case by (cases i) auto
qed

lemma markFirst_present:
  "target \<in> Address ` set bs \<Longrightarrow>
     \<exists>i < length bs. Address (bs ! i) = target \<and> (\<forall>j < i. Address (bs ! j) \<noteq> target) \<and>
        markFirst target bs = bs[i := (bs ! i)\<lparr>IsAlive := False\<rparr>]"
proof (induction bs)
  case Nil
  then show ?case by simp
next
  case (Cons b bs)
  show ?case
  proof (cases "Address b = target")
    case True
    then have "Address ((b # bs) ! 0) = target \<and> (\<forall>j < 0. Address ((b # bs) ! j) \<noteq> target) \<and>
        markFirst target (b # bs) = (b # bs)[0 := ((b # bs) ! 0)\<lparr>IsAlive := False\<rparr>]"
      by simp
    then show ?thesis by blast
  next
    case False
    with Cons.prems have "target \<in> Address ` set bs" by auto
    then obtain i where i: "i < length bs" "Address (bs ! i) = target"
      "\<forall>j < i. Address (bs ! j) \<noteq> target"
      "markFirst target bs = bs[i := (bs ! i)\<lparr>IsAlive := False\<rparr>]"
      using Cons.IH by blast
    have "\<forall>j < Suc i. Address ((b # bs) ! j) \<noteq> target"
      using False i(3) by (auto simp: less_Suc_eq_0_disj)
    then have "Suc i < length (b # bs) \<and> Address ((b # bs) ! Suc i) = target \<and>
        (\<forall>j < Suc i. Address ((b # bs) ! j) \<noteq> target) \<and>
        markFirst target (b # bs) = (b # bs)[Suc i := ((b # bs) ! Suc i)\<lparr>IsAlive := False\<rparr>]"
      using False i by simp
    then show ?thesis by blast
  qed
qed

text \<open>
  C7 (\<^verbatim>\<open>markUnhealthy(X)\<close> sets alive to false on the backend whose address is \<open>X\<close> and
  changes nothing else; it is idempotent, and a no-op where no address is \<open>X\<close>). The
  cursor and the sequence of addresses are as before. Where a backend has the address
  \<open>X\<close>, the pool after the call is the pool before it with the first such backend marked
  dead; every backend with another address is as before. A second call changes nothing
  more, and where no backend has the address the whole state is as before.
\<close>

theorem mark_unhealthy_frame:
  "currentIndex (MarkBackendUnhealthy X lb) = currentIndex lb \<and>
   map Address (backends (MarkBackendUnhealthy X lb)) = map Address (backends lb) \<and>
   (X \<in> Address ` set (backends lb) \<longrightarrow>
      (\<exists>i < length (backends lb).
          Address (backends lb ! i) = X \<and> (\<forall>j < i. Address (backends lb ! j) \<noteq> X) \<and>
          backends (MarkBackendUnhealthy X lb) =
            (backends lb)[i := (backends lb ! i)\<lparr>IsAlive := False\<rparr>])) \<and>
   (\<forall>i < length (backends lb). Address (backends lb ! i) \<noteq> X \<longrightarrow>
      backends (MarkBackendUnhealthy X lb) ! i = backends lb ! i) \<and>
   MarkBackendUnhealthy X (MarkBackendUnhealthy X lb) = MarkBackendUnhealthy X lb \<and>
   (X \<notin> Address ` set (backends lb) \<longrightarrow> MarkBackendUnhealthy X lb = lb)"
  by (simp add: MarkBackendUnhealthy_def markFirst_addresses markFirst_other markFirst_idem
      markFirst_absent markFirst_present)

theorem mark_unhealthy_frame_witness:
  "''http://b:8082'' \<in> Address ` set [\<lparr>Address = ''http://a:8081'', IsAlive = True\<rparr>,
                                        \<lparr>Address = ''http://b:8082'', IsAlive = True\<rparr>,
                                        \<lparr>Address = ''http://c:8083'', IsAlive = True\<rparr>] \<and>
   MarkBackendUnhealthy ''http://b:8082''
     \<lparr>backends = [\<lparr>Address = ''http://a:8081'', IsAlive = True\<rparr>,
                  \<lparr>Address = ''http://b:8082'', IsAlive = True\<rparr>,
                  \<lparr>Address = ''http://c:8083'', IsAlive = True\<rparr>],
      currentIndex = 5\<rparr>
   = \<lparr>backends = [\<lparr>Address = ''http://a:8081'', IsAlive = True\<rparr>,
                   \<lparr>Address = ''http://b:8082'', IsAlive = False\<rparr>,
                   \<lparr>Address = ''http://c:8083'', IsAlive = True\<rparr>],
       currentIndex = 5\<rparr> \<and>
   ''http://d:8084'' \<notin> Address ` set [\<lparr>Address = ''http://a:8081'', IsAlive = True\<rparr>,
                                        \<lparr>Address = ''http://b:8082'', IsAlive = True\<rparr>,
                                        \<lparr>Address = ''http://c:8083'', IsAlive = True\<rparr>] \<and>
   MarkBackendUnhealthy ''http://d:8084''
     \<lparr>backends = [\<lparr>Address = ''http://a:8081'', IsAlive = True\<rparr>,
                  \<lparr>Address = ''http://b:8082'', IsAlive = True\<rparr>,
                  \<lparr>Address = ''http://c:8083'', IsAlive = True\<rparr>],
      currentIndex = 5\<rparr>
   = \<lparr>backends = [\<lparr>Address = ''http://a:8081'', IsAlive = True\<rparr>,
                   \<lparr>Address = ''http://b:8082'', IsAlive = True\<rparr>,
                   \<lparr>Address = ''http://c:8083'', IsAlive = True\<rparr>],
       currentIndex = 5\<rparr>"
  using mark_unhealthy_frame
      [of "''http://b:8082''"
          "\<lparr>backends = [\<lparr>Address = ''http://a:8081'', IsAlive = True\<rparr>,
                        \<lparr>Address = ''http://b:8082'', IsAlive = True\<rparr>,
                        \<lparr>Address = ''http://c:8083'', IsAlive = True\<rparr>],
            currentIndex = 5\<rparr>"]
    mark_unhealthy_frame
      [of "''http://d:8084''"
          "\<lparr>backends = [\<lparr>Address = ''http://a:8081'', IsAlive = True\<rparr>,
                        \<lparr>Address = ''http://b:8082'', IsAlive = True\<rparr>,
                        \<lparr>Address = ''http://c:8083'', IsAlive = True\<rparr>],
            currentIndex = 5\<rparr>"]
  by (simp add: MarkBackendUnhealthy_def)

section \<open>Rounding to \<^verbatim>\<open>float64\<close>: properties\<close>

lemma bits_bounds: "0 < n \<Longrightarrow> 2 ^ (bits n - 1) \<le> n \<and> n < 2 ^ bits n"
proof (induction n rule: bits.induct)
  case (1 n)
  show ?case
  proof (cases "n = 1")
    case True
    then show ?thesis by (simp add: bits.simps)
  next
    case False
    with "1.prems" have h: "0 < n div 2" by simp
    then have ih: "2 ^ (bits (n div 2) - 1) \<le> n div 2 \<and> n div 2 < 2 ^ bits (n div 2)"
      using "1.IH" "1.prems" by simp
    have pos: "0 < bits (n div 2)"
      using h by (simp add: bits.simps)
    then obtain k where k: "bits (n div 2) = Suc k" by (cases "bits (n div 2)") auto
    have b: "bits n = Suc (Suc k)"
      using "1.prems" k by (simp add: bits.simps [of n])
    have d: "2 * (n div 2) \<le> n \<and> n < 2 * (n div 2) + 2" by presburger
    have "2 * 2 ^ k \<le> n" using ih k d by simp
    moreover have "n < 2 * (2 * 2 ^ k)" using ih k d by simp
    ultimately show ?thesis by (simp add: b)
  qed
qed

lemma bits_pos: "0 < n \<Longrightarrow> 0 < bits n"
  by (simp add: bits.simps [of n])

lemma ilog2_bounds:
  assumes "0 < x"
  shows "2 powi ilog2 x \<le> x \<and> x < 2 powi (ilog2 x + 1)"
proof (cases "1 \<le> x")
  case True
  let ?n = "\<lfloor>x\<rfloor>"
  have n: "0 < ?n" using True by simp
  obtain k where k: "bits ?n = Suc k"
    using bits_pos [OF n] by (cases "bits ?n") auto
  have bb: "2 ^ k \<le> ?n" "?n < 2 * 2 ^ k"
    using bits_bounds [OF n] k by simp_all
  have l: "ilog2 x = int k"
    using True k by (simp add: ilog2_def)
  have "(2::rat) ^ k \<le> of_int ?n"
    using bb(1) by (metis of_int_le_iff of_int_numeral of_int_power)
  also have "\<dots> \<le> x" by simp
  finally have lo: "(2::rat) ^ k \<le> x" .
  have "?n + 1 \<le> 2 * 2 ^ k" using bb(2) by simp
  then have "(of_int (?n + 1) :: rat) \<le> of_int (2 * 2 ^ k)"
    by (simp only: of_int_le_iff)
  moreover have "x < of_int (?n + 1)" by linarith
  ultimately have hi: "x < 2 * 2 ^ k" by simp
  show ?thesis
    using lo hi by (simp add: l power_int_add)
next
  case False
  let ?y = "1 / x"
  let ?m = "\<lceil>?y\<rceil> - 1"
  have y: "1 < ?y" using False assms by simp
  then have m: "0 < ?m" by linarith
  obtain k where k: "bits ?m = Suc k"
    using bits_pos [OF m] by (cases "bits ?m") auto
  have bb: "2 ^ k \<le> ?m" "?m < 2 * 2 ^ k"
    using bits_bounds [OF m] k by simp_all
  have l: "ilog2 x = - int (Suc k)"
    using False k by (simp add: ilog2_def)
  have "\<lceil>?y\<rceil> \<le> 2 * 2 ^ k" using bb(2) by simp
  then have "(of_int \<lceil>?y\<rceil> :: rat) \<le> of_int (2 * 2 ^ k)"
    by (simp only: of_int_le_iff)
  then have c1: "(of_int \<lceil>?y\<rceil> :: rat) \<le> 2 ^ Suc k" by simp
  have c2: "?y \<le> of_int \<lceil>?y\<rceil>" by (rule le_of_int_ceiling)
  from c2 c1 have yhi: "?y \<le> 2 ^ Suc k" by (rule order_trans)
  have "(of_int (2 ^ k) :: rat) \<le> of_int ?m"
    using bb(1) by (simp only: of_int_le_iff)
  moreover have "of_int ?m < ?y" by linarith
  ultimately have ylo: "2 ^ k < ?y" by simp
  have lo: "1 / 2 ^ Suc k \<le> x"
  proof -
    have "1 \<le> x * 2 ^ Suc k"
      using yhi assms by (simp add: field_simps)
    then show ?thesis by (simp add: field_simps)
  qed
  have hi: "x < 1 / 2 ^ k"
  proof -
    have "x * 2 ^ k < 1"
      using ylo assms by (simp add: field_simps)
    then show ?thesis by (simp add: field_simps)
  qed
  have p1: "(2::rat) powi (- int (Suc k)) = 1 / 2 ^ Suc k"
    by (simp only: power_int_minus power_int_of_nat inverse_eq_divide)
  have "- int (Suc k) + 1 = - int k" by simp
  then have p2: "(2::rat) powi (- int (Suc k) + 1) = 1 / 2 ^ k"
    by (simp only: power_int_minus power_int_of_nat inverse_eq_divide)
  show ?thesis
    unfolding l p1 p2 using lo hi by simp
qed

lemma roundToEven_bounds: "\<lfloor>x\<rfloor> \<le> roundToEven x \<and> roundToEven x \<le> \<lceil>x\<rceil>"
proof -
  have c: "\<lceil>x\<rceil> = \<lfloor>x\<rfloor> + 1" if "0 < x - of_int \<lfloor>x\<rfloor>"
    using that by (simp add: ceiling_altdef)
  have f: "\<lfloor>x\<rfloor> \<le> \<lceil>x\<rceil>" by (rule floor_le_ceiling)
  show ?thesis
    using c f by (auto simp: roundToEven_def Let_def)
qed

lemma roundToEven_of_int: "roundToEven (of_int n) = n"
  by (simp add: roundToEven_def Let_def)

lemma float64_0: "float64 0 = 0"
  by (simp add: float64_def)

lemma pow2_le_iff: "(2::rat) powi m \<le> 2 powi n \<longleftrightarrow> m \<le> n"
proof
  assume le: "(2::rat) powi m \<le> 2 powi n"
  show "m \<le> n"
  proof (rule ccontr)
    assume "\<not> m \<le> n"
    then have "n < m" by simp
    then have "(2::rat) powi n < 2 powi m" by (rule power_int_strict_increasing) simp
    with le show False by simp
  qed
next
  assume "m \<le> n"
  then show "(2::rat) powi m \<le> 2 powi n" by (rule power_int_increasing) simp
qed

lemma pow2_less_iff: "(2::rat) powi m < 2 powi n \<longleftrightarrow> m < n"
  using pow2_le_iff [of n m] by (simp only: not_le [symmetric])

lemma pow2_add: "(2::rat) powi a * 2 powi b = 2 powi (a + b)"
  by (simp add: power_int_add)

lemma pow2_mult_eq: "a + b = c \<Longrightarrow> (2::rat) powi a * 2 powi b = 2 powi c"
  by (simp only: pow2_add)

lemma float64_pos_bounds:
  assumes "0 < x"
  shows "2 powi ilog2 x \<le> float64 x \<and> float64 x \<le> 2 powi (ilog2 x + 1)"
proof -
  define l where "l = ilog2 x"
  define e where "e = l - 52"
  define s where "s = x * 2 powi (- e)"
  have p: "(0::rat) \<le> 2 powi (- e)" "(0::rat) < 2 powi (- e)" "(0::rat) \<le> 2 powi e"
    by simp_all
  have lx: "2 powi l \<le> x" and xl: "x < 2 powi (l + 1)"
    using ilog2_bounds [OF assms] by (simp_all add: l_def)
  have e1: "(2::rat) powi l * 2 powi (- e) = 2 powi 52"
    by (rule pow2_mult_eq) (simp add: e_def)
  have e2: "(2::rat) powi (l + 1) * 2 powi (- e) = 2 powi 53"
    by (rule pow2_mult_eq) (simp add: e_def)
  have e3: "(2::rat) powi 52 * 2 powi e = 2 powi l"
    by (rule pow2_mult_eq) (simp add: e_def)
  have e4: "(2::rat) powi 53 * 2 powi e = 2 powi (l + 1)"
    by (rule pow2_mult_eq) (simp add: e_def)
  have "2 powi l * 2 powi (- e) \<le> s"
    unfolding s_def using lx p(1) by (rule mult_right_mono)
  then have s_lo: "2 powi 52 \<le> s" by (simp only: e1)
  have "s < 2 powi (l + 1) * 2 powi (- e)"
    unfolding s_def using xl p(2) by (rule mult_strict_right_mono)
  then have s_hi: "s < 2 powi 53" by (simp only: e2)
  have "(of_int (2 ^ 52) :: rat) \<le> s" using s_lo by simp
  then have "2 ^ 52 \<le> \<lfloor>s\<rfloor>" by (simp only: le_floor_iff)
  then have r_lo: "2 ^ 52 \<le> roundToEven s"
    using roundToEven_bounds [of s] by linarith
  have "s \<le> of_int (2 ^ 53)" using s_hi by simp
  then have "\<lceil>s\<rceil> \<le> 2 ^ 53" by (simp only: ceiling_le_iff)
  then have r_hi: "roundToEven s \<le> 2 ^ 53"
    using roundToEven_bounds [of s] by linarith
  have f: "float64 x = of_int (roundToEven s) * 2 powi e"
    using assms by (simp add: float64_def Let_def s_def e_def l_def)
  have "(of_int (2 ^ 52) :: rat) \<le> of_int (roundToEven s)"
    using r_lo by (simp only: of_int_le_iff)
  then have "(2 powi 52 :: rat) \<le> of_int (roundToEven s)" by simp
  then have "(2 powi 52 :: rat) * 2 powi e \<le> of_int (roundToEven s) * 2 powi e"
    using p(3) by (rule mult_right_mono)
  then have lo: "2 powi l \<le> float64 x" by (simp only: e3 f)
  have "(of_int (roundToEven s) :: rat) \<le> of_int (2 ^ 53)"
    using r_hi by (simp only: of_int_le_iff)
  then have "(of_int (roundToEven s) :: rat) \<le> 2 powi 53" by simp
  then have "of_int (roundToEven s) * 2 powi e \<le> (2 powi 53 :: rat) * 2 powi e"
    using p(3) by (rule mult_right_mono)
  then have hi: "float64 x \<le> 2 powi (l + 1)" by (simp only: e4 f)
  show ?thesis using lo hi by (simp add: l_def)
qed

lemma float64_pow2: "float64 (2 powi k) = 2 powi k"
proof -
  let ?x = "(2::rat) powi k"
  have x: "0 < ?x" by simp
  have b: "2 powi ilog2 ?x \<le> ?x" "?x < 2 powi (ilog2 ?x + 1)"
    using ilog2_bounds [OF x] by simp_all
  have "ilog2 ?x \<le> k" using b(1) by (simp only: pow2_le_iff)
  moreover have "k < ilog2 ?x + 1" using b(2) by (simp only: pow2_less_iff)
  ultimately have l: "ilog2 ?x = k" by simp
  have "?x * 2 powi (- (k - 52)) = 2 powi 52"
    by (rule pow2_mult_eq) simp
  then have s: "?x * 2 powi (- (k - 52)) = of_int (2 ^ 52)" by simp
  have "float64 ?x = of_int (roundToEven (?x * 2 powi (- (k - 52)))) * 2 powi (k - 52)"
    using x by (simp add: float64_def Let_def l)
  also have "\<dots> = of_int (2 ^ 52) * 2 powi (k - 52)"
    by (simp only: s roundToEven_of_int)
  also have "\<dots> = 2 powi 52 * 2 powi (k - 52)" by simp
  also have "\<dots> = ?x" by (rule pow2_mult_eq) simp
  finally show ?thesis .
qed

lemma float64_ge_pow2:
  assumes "2 powi k \<le> x"
  shows "2 powi k \<le> float64 x"
proof -
  have x: "0 < x" using assms by (rule less_le_trans [rotated]) simp
  have "2 powi k < (2::rat) powi (ilog2 x + 1)"
    using assms ilog2_bounds [OF x] by linarith
  then have "k \<le> ilog2 x" by (simp add: pow2_less_iff)
  then have "(2::rat) powi k \<le> 2 powi ilog2 x" by (simp only: pow2_le_iff)
  then show ?thesis using float64_pos_bounds [OF x] by linarith
qed

lemma float64_le_pow2:
  assumes "0 \<le> x" and "x \<le> 2 powi k"
  shows "float64 x \<le> 2 powi k"
proof (cases "x = 0 \<or> x = 2 powi k")
  case True
  then show ?thesis by (auto simp: float64_0 float64_pow2)
next
  case False
  then have x: "0 < x" and lt: "x < 2 powi k" using assms by simp_all
  have "(2::rat) powi ilog2 x < 2 powi k"
    using lt ilog2_bounds [OF x] by linarith
  then have "ilog2 x + 1 \<le> k" by (simp add: pow2_less_iff)
  then have "(2::rat) powi (ilog2 x + 1) \<le> 2 powi k" by (simp only: pow2_le_iff)
  then show ?thesis using float64_pos_bounds [OF x] by linarith
qed

lemma float64_nonneg: "0 \<le> x \<Longrightarrow> 0 \<le> float64 x"
proof (cases "x = 0")
  case True
  then show ?thesis by (simp add: float64_0)
next
  case False
  assume "0 \<le> x"
  with False have x: "0 < x" by simp
  have "(0::rat) \<le> 2 powi ilog2 x" by simp
  then show ?thesis using float64_pos_bounds [OF x] by linarith
qed

section \<open>Token bucket: properties\<close>

lemma sint_word_of_int_64:
  "- 9223372036854775808 \<le> t \<Longrightarrow> t \<le> 9223372036854775807 \<Longrightarrow> sint (word_of_int t :: 64 word) = t"
  by (simp add: sint_sbintrunc' signed_take_bit_int_eq_self)

lemma sint_64_bounds:
  "- 9223372036854775808 \<le> sint (w :: 64 word) \<and> sint w \<le> 9223372036854775807"
  using sint_ge [of w] sint_lt [of w] by simp

lemma sint_add_64:
  "- 9223372036854775808 \<le> sint a + sint b \<Longrightarrow> sint a + sint b \<le> 9223372036854775807 \<Longrightarrow>
     sint (a + b :: 64 word) = sint a + sint b"
  by (simp add: sint_word_ariths signed_take_bit_int_eq_self)

lemma sint_pred_64: "0 < sint (a :: 64 word) \<Longrightarrow> sint (a - 1) = sint a - 1"
  using sint_64_bounds [of a] by (simp add: sint_word_ariths signed_take_bit_int_eq_self)

lemma sint_min_go: "sint (min_go a b) = min (sint a) (sint b)"
  by (simp add: min_go_def word_sless_alt min_def)

lemma time_Sub_ge:
  "u + k \<le> t \<Longrightarrow> 0 \<le> k \<Longrightarrow> k \<le> 9223372036854775807 \<Longrightarrow>
     k \<le> time_Sub t u \<and> time_Sub t u \<le> 9223372036854775807"
  by (simp add: time_Sub_def Let_def)

lemma int_of_float_nonneg:
  "0 \<le> x \<Longrightarrow> \<lfloor>x\<rfloor> \<le> 9223372036854775807 \<Longrightarrow> int_of_float x = word_of_int \<lfloor>x\<rfloor>"
  by (simp add: int_of_float_def Let_def)

text \<open>The converted value is positive exactly where the floor of the product is.\<close>

lemma int_of_float_positive_iff:
  assumes "\<lfloor>x\<rfloor> \<le> 9223372036854775807"
  shows "0 <s int_of_float x \<longleftrightarrow> 0 < \<lfloor>x\<rfloor>"
proof (cases "0 \<le> x")
  case True
  then have "0 \<le> \<lfloor>x\<rfloor>" by simp
  then have "sint (word_of_int \<lfloor>x\<rfloor> :: 64 word) = \<lfloor>x\<rfloor>"
    using assms by (intro sint_word_of_int_64) simp_all
  then show ?thesis
    using True assms by (simp add: int_of_float_nonneg word_sless_alt)
next
  case False
  then have neg: "\<lceil>x\<rceil> \<le> 0" "\<lfloor>x\<rfloor> < 0"
    by (simp_all add: ceiling_le_zero floor_less_zero)
  have "sint (int_of_float x) \<le> 0"
  proof (cases "- 9223372036854775808 \<le> \<lceil>x\<rceil>")
    case True
    then have "sint (word_of_int \<lceil>x\<rceil> :: 64 word) = \<lceil>x\<rceil>"
      using neg by (intro sint_word_of_int_64) simp_all
    then show ?thesis
      using \<open>\<not> 0 \<le> x\<close> True neg by (simp add: int_of_float_def Let_def)
  next
    case False
    then show ?thesis
      using \<open>\<not> 0 \<le> x\<close> by (simp add: int_of_float_def Let_def)
  qed
  then show ?thesis
    using neg by (simp add: word_sless_alt)
qed


lemma float64_1: "float64 1 = 1"
  using float64_pow2 [of 0] by simp

lemma float64_2: "float64 2 = 2"
  using float64_pow2 [of 1] by simp

lemma Seconds_0: "Seconds 0 = 0"
  by (simp add: Seconds_def float64_0)

lemma Seconds_2s: "Seconds 2000000000 = 2"
  by (simp add: Seconds_def float64_0 float64_2)

text \<open>A duration of at least one second is at least one second as a \<^verbatim>\<open>float64\<close>.\<close>

lemma Seconds_bounds:
  assumes "1000000000 \<le> d" and "d \<le> 9223372036854775807"
  shows "1 \<le> Seconds d \<and> Seconds d \<le> 2 powi 35"
proof -
  define sec where "sec = d div 1000000000"
  define nsec where "nsec = d mod 1000000000"
  have sec: "1 \<le> sec" "sec \<le> 17179869184"
    using assms unfolding sec_def by linarith+
  have nsec: "0 \<le> nsec" "nsec \<le> 1073741824"
    unfolding nsec_def by linarith+
  have S: "Seconds d = float64 (float64 (of_int sec) + float64 (float64 (of_int nsec) / 1000000000))"
    using assms by (simp add: Seconds_def sec_def nsec_def Let_def)
  have a_lo: "1 \<le> float64 (of_int sec)"
    using float64_ge_pow2 [of 0 "of_int sec"] sec(1) by simp
  have a_hi: "float64 (of_int sec) \<le> 2 powi 34"
    using float64_le_pow2 [of "of_int sec" 34] sec by simp
  have q_lo: "0 \<le> float64 (of_int nsec)"
    using nsec(1) by (intro float64_nonneg) simp
  have q_hi: "float64 (of_int nsec) \<le> 2 powi 30"
    using float64_le_pow2 [of "of_int nsec" 30] nsec by simp
  have b_lo: "0 \<le> float64 (float64 (of_int nsec) / 1000000000)"
    using q_lo by (intro float64_nonneg) simp
  have "float64 (of_int nsec) / 1000000000 \<le> 2 powi 1"
    using q_hi by simp
  then have b_hi: "float64 (float64 (of_int nsec) / 1000000000) \<le> 2 powi 1"
    using q_lo by (intro float64_le_pow2) simp_all
  let ?sum = "float64 (of_int sec) + float64 (float64 (of_int nsec) / 1000000000)"
  have s_lo: "2 powi 0 \<le> ?sum" using a_lo b_lo by simp
  have s_hi: "?sum \<le> 2 powi 35" using a_hi b_hi by simp
  have s0: "0 \<le> ?sum" using a_lo b_lo by simp
  have "2 powi 0 \<le> float64 ?sum" using s_lo by (rule float64_ge_pow2)
  moreover have "float64 ?sum \<le> 2 powi 35" using s0 s_hi by (rule float64_le_pow2)
  ultimately show ?thesis by (simp add: S)
qed

lemma refill_no_time: "lastRefill tb = t0 \<Longrightarrow> refill t0 tb = tb"
  by (simp add: refill_def time_Sub_def Seconds_0 float64_0 int_of_float_def Let_def)

lemma Allow_no_time:
  "lastRefill tb = t0 \<Longrightarrow>
     TokenBucket_Allow t0 t0 tb =
       (if 0 < sint (Tokens tb) then (True, tb\<lparr>lastSeen := t0, Tokens := Tokens tb - 1\<rparr>)
        else (False, tb\<lparr>lastSeen := t0\<rparr>))"
  by (simp add: TokenBucket_Allow_def refill_no_time Let_def word_sless_alt)

text \<open>
  C3 (capacity 5, refill rate 1: with no time elapsed the first five calls are allowed and
  the sixth is not; after at least 1.2 seconds a further call is allowed). The bucket is
  created at \<open>t0\<close> and all six calls read the clock at \<open>t0\<close>; the further call reads it at
  \<open>t\<close>, at least 1 200 000 000 nanoseconds later.
\<close>

theorem bucket_admission:
  "fst (allows (replicate 6 (t0, t0)) (NewTokenBucket 5 1 t0)) = [True, True, True, True, True, False] \<and>
   (t0 + 1200000000 \<le> t \<longrightarrow>
      fst (TokenBucket_Allow t t' (snd (allows (replicate 6 (t0, t0)) (NewTokenBucket 5 1 t0)))))"
proof -
  let ?b6 = "\<lparr>Capacity = 5, Tokens = 0, RefillRate = 1, lastRefill = t0, lastSeen = t0\<rparr>"
  have six: "allows (replicate 6 (t0, t0)) (NewTokenBucket 5 1 t0)
               = ([True, True, True, True, True, False], ?b6)"
    by (simp add: numeral_eq_Suc NewTokenBucket_def Allow_no_time)
  have later: "fst (TokenBucket_Allow t t' ?b6)" if "t0 + 1200000000 \<le> t"
  proof -
    let ?d = "time_Sub t t0"
    define p where "p = float64 (Seconds ?d * float64 (of_int (sint (1 :: 64 word))))"
    have d: "1200000000 \<le> ?d" "?d \<le> 9223372036854775807"
      using time_Sub_ge [of t0 1200000000 t] that by simp_all
    have s: "1 \<le> Seconds ?d" "Seconds ?d \<le> 2 powi 35"
      using Seconds_bounds [of ?d] d by simp_all
    have pe: "p = float64 (Seconds ?d)"
      by (simp add: p_def float64_1)
    have p_lo: "1 \<le> p"
      using float64_ge_pow2 [of 0 "Seconds ?d"] s(1) by (simp add: pe)
    have p_hi: "p \<le> 2 powi 35"
      unfolding pe using s by (intro float64_le_pow2) simp_all
    have lo: "1 \<le> \<lfloor>p\<rfloor>" using p_lo by simp
    have "\<lfloor>p\<rfloor> \<le> \<lfloor>2 powi 35 :: rat\<rfloor>" using p_hi by (rule floor_mono)
    then have hi: "\<lfloor>p\<rfloor> \<le> 9223372036854775807" by simp
    have p0: "0 \<le> p" using p_lo by simp
    have conv: "int_of_float p = word_of_int \<lfloor>p\<rfloor>"
      using p0 hi by (rule int_of_float_nonneg)
    have sp: "sint (word_of_int \<lfloor>p\<rfloor> :: 64 word) = \<lfloor>p\<rfloor>"
      using lo hi by (intro sint_word_of_int_64) simp_all
    have r: "refill t ?b6 = ?b6\<lparr>Tokens := min_go 5 (word_of_int \<lfloor>p\<rfloor>), lastRefill := t\<rparr>"
      using conv sp lo unfolding p_def by (simp add: refill_def Let_def word_sless_alt)
    have "0 < sint (min_go 5 (word_of_int \<lfloor>p\<rfloor>))"
      using sp lo by (simp add: sint_min_go)
    then show ?thesis
      by (simp add: TokenBucket_Allow_def Let_def r word_sless_alt)
  qed
  show ?thesis using six later by simp
qed

theorem bucket_admission_witness:
  "(0::int) + 1200000000 \<le> 1200000000 \<and>
   fst (allows (replicate 6 (0, 0)) (NewTokenBucket 5 1 0)) = [True, True, True, True, True, False] \<and>
   fst (TokenBucket_Allow 1200000000 1200000007
          (snd (allows (replicate 6 (0, 0)) (NewTokenBucket 5 1 0))))"
  using bucket_admission [of 0 1200000000 1200000007] by simp

lemma word_of_int_min_sint:
  "word_of_int (min (sint a) (sint b)) = min_go a (b :: 64 word)"
  by (simp add: min_go_def word_sless_alt min_def)

text \<open>
  C4, as amended (the refill step). The elapsed time in seconds and its product with the
  refill rate are computed in \<^verbatim>\<open>float64\<close>, every operation rounded to the nearest
  \<^verbatim>\<open>float64\<close>, and \<open>tokensToAdd\<close> is the integer part of the rounded product. Where
  \<open>tokensToAdd\<close> is positive, and neither it nor \<open>tokens + tokensToAdd\<close> passes the largest
  integer, the tokens become \<open>min(capacity, tokens + tokensToAdd)\<close> and \<open>lastRefill\<close>
  becomes now. Where \<open>tokensToAdd\<close> is zero or less, the bucket is as before: tokens and
  \<open>lastRefill\<close> keep their values, so that the time elapsed since \<open>lastRefill\<close> still
  counts at the next call.
\<close>

theorem refill_float64_contract:
  "let tokensToAdd =
         \<lfloor>float64 (Seconds (time_Sub now (lastRefill tb)) * float64 (of_int (sint (RefillRate tb))))\<rfloor>
   in (0 < tokensToAdd \<and> tokensToAdd \<le> 9223372036854775807 \<and>
       sint (Tokens tb) + tokensToAdd \<le> 9223372036854775807 \<longrightarrow>
         refill now tb =
           tb\<lparr>Tokens := word_of_int (min (sint (Capacity tb)) (sint (Tokens tb) + tokensToAdd)),
              lastRefill := now\<rparr>) \<and>
      (tokensToAdd \<le> 0 \<longrightarrow> refill now tb = tb)"
proof -
  let ?x = "float64 (Seconds (time_Sub now (lastRefill tb)) * float64 (of_int (sint (RefillRate tb))))"
  define T where "T = \<lfloor>?x\<rfloor>"
  have upd: "refill now tb =
        tb\<lparr>Tokens := word_of_int (min (sint (Capacity tb)) (sint (Tokens tb) + T)), lastRefill := now\<rparr>"
    if p: "0 < T" and T_le: "T \<le> 9223372036854775807"
      and fits: "sint (Tokens tb) + T \<le> 9223372036854775807"
  proof -
    have pos: "0 <s int_of_float ?x"
      using int_of_float_positive_iff [of ?x] p T_le by (simp only: T_def)
    have "0 \<le> ?x" using p by (simp add: T_def zero_less_floor)
    then have conv: "int_of_float ?x = word_of_int T"
      unfolding T_def using T_le [unfolded T_def] by (rule int_of_float_nonneg)
    have s: "sint (word_of_int T :: 64 word) = T"
      using p T_le by (intro sint_word_of_int_64) simp_all
    have lower: "- 9223372036854775808 \<le> sint (Tokens tb) + T"
      using p sint_64_bounds [of "Tokens tb"] by linarith
    have "sint (Tokens tb + word_of_int T) = sint (Tokens tb) + sint (word_of_int T :: 64 word)"
      by (rule sint_add_64) (simp_all only: s lower fits)
    then have sum: "sint (Tokens tb + word_of_int T) = sint (Tokens tb) + T"
      by (simp only: s)
    have "min_go (Capacity tb) (Tokens tb + word_of_int T) =
            word_of_int (min (sint (Capacity tb)) (sint (Tokens tb) + T))"
      by (simp only: word_of_int_min_sint [symmetric] sum)
    then show ?thesis
      using pos conv by (simp add: refill_def Let_def)
  qed
  have same: "refill now tb = tb" if "T \<le> 0"
  proof -
    have "T \<le> 9223372036854775807" using that by simp
    then have "\<not> 0 <s int_of_float ?x"
      using int_of_float_positive_iff [of ?x] that by (simp only: T_def)
    then show ?thesis by (simp add: refill_def Let_def)
  qed
  show ?thesis
    unfolding Let_def T_def [symmetric] using upd same by blast
qed

theorem refill_float64_contract_witness:
  "\<lfloor>float64 (Seconds (time_Sub 2500000000 0) * float64 (of_int (sint (1 :: 64 word))))\<rfloor> = 2 \<and>
   refill 2500000000 \<lparr>Capacity = 5, Tokens = 1, RefillRate = 1, lastRefill = 0, lastSeen = 0\<rparr>
     = \<lparr>Capacity = 5, Tokens = 3, RefillRate = 1, lastRefill = 2500000000, lastSeen = 0\<rparr> \<and>
   \<lfloor>float64 (Seconds (time_Sub 400000000 0) * float64 (of_int (sint (1 :: 64 word))))\<rfloor> = 0 \<and>
   refill 400000000 \<lparr>Capacity = 5, Tokens = 1, RefillRate = 1, lastRefill = 0, lastSeen = 0\<rparr>
     = \<lparr>Capacity = 5, Tokens = 1, RefillRate = 1, lastRefill = 0, lastSeen = 0\<rparr>"
proof -
  let ?tb = "\<lparr>Capacity = 5, Tokens = 1, RefillRate = 1, lastRefill = 0, lastSeen = 0\<rparr>"
  have v1: "\<lfloor>float64 (Seconds (time_Sub 2500000000 0) * float64 (of_int (sint (1 :: 64 word))))\<rfloor> = 2"
    by code_simp
  have v2: "\<lfloor>float64 (Seconds (time_Sub 400000000 0) * float64 (of_int (sint (1 :: 64 word))))\<rfloor> = 0"
    by code_simp
  have T1: "\<lfloor>float64 (Seconds (time_Sub 2500000000 (lastRefill ?tb)) *
                    float64 (of_int (sint (RefillRate ?tb))))\<rfloor> = 2"
    using v1 by simp
  have T2: "\<lfloor>float64 (Seconds (time_Sub 400000000 (lastRefill ?tb)) *
                    float64 (of_int (sint (RefillRate ?tb))))\<rfloor> = 0"
    using v2 by simp
  have r1: "refill 2500000000 ?tb
              = \<lparr>Capacity = 5, Tokens = 3, RefillRate = 1, lastRefill = 2500000000, lastSeen = 0\<rparr>"
    using refill_float64_contract [of 2500000000 ?tb, unfolded Let_def T1] by simp
  have r2: "refill 400000000 ?tb = ?tb"
    using refill_float64_contract [of 400000000 ?tb, unfolded Let_def T2] by simp
  show ?thesis using v1 r1 v2 r2 by blast
qed

text \<open>
  The refill step against the floor of the exact product. After 0.29 seconds at the rate
  100 the exact product is 29, while the code adds 28 tokens: 0.29 is not a \<^verbatim>\<open>float64\<close>,
  and the rounded product \<open>28.999999999999996\<close> has the integer part 28. After 3 seconds
  at the rate \<open>2\<^sup>6\<^sup>2\<close> the exact product is positive, while the code adds nothing: the
  product does not fit a 64-bit integer, and its conversion is negative. With
  \<open>2\<^sup>6\<^sup>3 - 2\<close> tokens and the largest capacity, after 2 seconds at the rate 1, the
  minimum of the capacity and the sum would be the capacity, while the code leaves
  \<open>- 2\<^sup>6\<^sup>3\<close> tokens.
\<close>

theorem refill_differs_from_exact_floor:
  "\<lfloor>(of_int (time_Sub 290000000 0) / 1000000000 :: rat) * of_int (sint (100 :: 64 word))\<rfloor> = 29 \<and>
   refill 290000000 \<lparr>Capacity = 1000, Tokens = 0, RefillRate = 100, lastRefill = 0, lastSeen = 0\<rparr>
     = \<lparr>Capacity = 1000, Tokens = 28, RefillRate = 100, lastRefill = 290000000, lastSeen = 0\<rparr> \<and>
   (28 :: 64 word) \<noteq> min_go 1000 (0 + 29) \<and>
   \<lfloor>(of_int (time_Sub 3000000000 0) / 1000000000 :: rat) * of_int (sint (4611686018427387904 :: 64 word))\<rfloor>
     = 13835058055282163712 \<and>
   refill 3000000000
       \<lparr>Capacity = 1000, Tokens = 0, RefillRate = 4611686018427387904, lastRefill = 0, lastSeen = 0\<rparr>
     = \<lparr>Capacity = 1000, Tokens = 0, RefillRate = 4611686018427387904, lastRefill = 0, lastSeen = 0\<rparr> \<and>
   \<lfloor>(of_int (time_Sub 2000000000 0) / 1000000000 :: rat) * of_int (sint (1 :: 64 word))\<rfloor> = 2 \<and>
   refill 2000000000
       \<lparr>Capacity = 9223372036854775807, Tokens = 9223372036854775806, RefillRate = 1,
        lastRefill = 0, lastSeen = 0\<rparr>
     = \<lparr>Capacity = 9223372036854775807, Tokens = - 9223372036854775808, RefillRate = 1,
        lastRefill = 2000000000, lastSeen = 0\<rparr> \<and>
   sint (- 9223372036854775808 :: 64 word)
     \<noteq> min (sint (9223372036854775807 :: 64 word)) (sint (9223372036854775806 :: 64 word) + 2)"
  by code_simp

text \<open>The range of the tokens: kept as long as the sum of the refill does not pass the
  largest integer.\<close>

lemma tokens_in_range_new:
  "0 \<le>s capacity \<Longrightarrow> tokens_in_range (NewTokenBucket capacity refillRate now)"
  by (simp add: tokens_in_range_def NewTokenBucket_def word_sle_eq)

lemma tokens_in_range_refill:
  assumes "tokens_in_range tb"
    and "sint (Tokens tb) +
           sint (int_of_float (float64 (Seconds (time_Sub now (lastRefill tb)) *
                                  float64 (of_int (sint (RefillRate tb))))))
         \<le> 9223372036854775807"
  shows "tokens_in_range (refill now tb)"
proof -
  let ?add = "int_of_float (float64 (Seconds (time_Sub now (lastRefill tb)) *
                                  float64 (of_int (sint (RefillRate tb)))))"
  show ?thesis
  proof (cases "0 <s ?add")
    case True
    then have p: "0 < sint ?add" by (simp add: word_sless_alt)
    have t: "0 \<le> sint (Tokens tb)" "sint (Tokens tb) \<le> sint (Capacity tb)"
      using assms(1) by (simp_all add: tokens_in_range_def word_sle_eq)
    have "sint (Tokens tb + ?add) = sint (Tokens tb) + sint ?add"
      using p t assms(2) by (intro sint_add_64) simp_all
    then have "0 \<le> sint (min_go (Capacity tb) (Tokens tb + ?add)) \<and>
               sint (min_go (Capacity tb) (Tokens tb + ?add)) \<le> sint (Capacity tb)"
      using p t by (simp add: sint_min_go)
    then show ?thesis
      using True by (simp add: refill_def Let_def tokens_in_range_def word_sle_eq)
  next
    case False
    then show ?thesis
      using assms(1) by (simp add: refill_def Let_def)
  qed
qed

lemma tokens_in_range_Allow:
  assumes "tokens_in_range tb"
    and "sint (Tokens tb) +
           sint (int_of_float (float64 (Seconds (time_Sub now (lastRefill tb)) *
                                  float64 (of_int (sint (RefillRate tb))))))
         \<le> 9223372036854775807"
  shows "tokens_in_range (snd (TokenBucket_Allow now now' tb))"
proof -
  have r: "tokens_in_range (refill now tb)"
    using assms by (rule tokens_in_range_refill)
  show ?thesis
  proof (cases "0 <s Tokens (refill now tb)")
    case True
    then have p: "0 < sint (Tokens (refill now tb))" by (simp add: word_sless_alt)
    then have "sint (Tokens (refill now tb) - 1) = sint (Tokens (refill now tb)) - 1"
      by (rule sint_pred_64)
    then show ?thesis
      using r True p by (simp add: TokenBucket_Allow_def Let_def tokens_in_range_def word_sle_eq)
  next
    case False
    then show ?thesis
      using r by (simp add: TokenBucket_Allow_def Let_def tokens_in_range_def)
  qed
qed

text \<open>
  C8 (for a bucket created with capacity \<open>\<ge> 0\<close>, \<open>0 \<le> tokens \<le> capacity\<close> holds after
  creation and after every admission check, for any passage of time). A bucket of the
  largest capacity, \<open>2 ^ 63 - 1\<close>, and refill rate 1 is created at time 0 and asked at
  once: the call is allowed and leaves \<open>2 ^ 63 - 2\<close> tokens. Two seconds later the refill
  adds 2: the sum wraps around to \<open>- 2 ^ 63\<close>, which the minimum with the capacity keeps.
  The bucket holds a negative number of tokens and the call is refused.
\<close>

theorem tokens_negative_after_overflow:
  "0 \<le>s (9223372036854775807 :: 64 word) \<and>
   TokenBucket_Allow 0 0 (NewTokenBucket 9223372036854775807 1 0) =
     (True, \<lparr>Capacity = 9223372036854775807, Tokens = 9223372036854775806, RefillRate = 1,
             lastRefill = 0, lastSeen = 0\<rparr>) \<and>
   TokenBucket_Allow 2000000000 2000000000
     \<lparr>Capacity = 9223372036854775807, Tokens = 9223372036854775806, RefillRate = 1,
      lastRefill = 0, lastSeen = 0\<rparr> =
     (False, \<lparr>Capacity = 9223372036854775807, Tokens = - 9223372036854775808, RefillRate = 1,
              lastRefill = 2000000000, lastSeen = 2000000000\<rparr>) \<and>
   sint (- 9223372036854775808 :: 64 word) = - 9223372036854775808 \<and>
   \<not> tokens_in_range
        \<lparr>Capacity = 9223372036854775807, Tokens = - 9223372036854775808, RefillRate = 1,
         lastRefill = 2000000000, lastSeen = 2000000000\<rparr>"
  by (simp add: NewTokenBucket_def TokenBucket_Allow_def refill_def time_Sub_def Seconds_0 Seconds_2s
      float64_0 float64_1 float64_2 int_of_float_def min_go_def Let_def tokens_in_range_def
      word_sless_alt word_sle_eq)

text \<open>
  Calls one after another with no time elapsed: a bucket created with capacity \<open>C \<ge> 0\<close>
  allows the first \<open>C\<close> of \<open>n\<close> calls and refuses the others.
\<close>

lemma sequential_admission_from:
  "lastRefill tb = t0 \<Longrightarrow> 0 \<le> sint (Tokens tb) \<Longrightarrow>
     fst (allows (replicate n (t0, t0)) tb) =
       replicate (min n (nat (sint (Tokens tb)))) True @ replicate (n - nat (sint (Tokens tb))) False"
proof (induction n arbitrary: tb)
  case 0
  then show ?case by simp
next
  case (Suc n)
  show ?case
  proof (cases "0 < sint (Tokens tb)")
    case True
    let ?tb' = "tb\<lparr>lastSeen := t0, Tokens := Tokens tb - 1\<rparr>"
    have dec: "sint (Tokens tb - 1) = sint (Tokens tb) - 1"
      using True by (rule sint_pred_64)
    have ih: "fst (allows (replicate n (t0, t0)) ?tb') =
        replicate (min n (nat (sint (Tokens tb) - 1))) True @ replicate (n - nat (sint (Tokens tb) - 1)) False"
      using Suc.IH [of ?tb'] Suc.prems True dec by simp
    obtain k where k: "nat (sint (Tokens tb)) = Suc k"
      using True by (cases "nat (sint (Tokens tb))") auto
    then have k': "nat (sint (Tokens tb) - 1) = k" by linarith
    show ?thesis
      using Suc.prems True ih by (simp add: Allow_no_time k k' case_prod_beta)
  next
    case False
    then have z: "sint (Tokens tb) = 0" using Suc.prems by simp
    let ?tb' = "tb\<lparr>lastSeen := t0\<rparr>"
    have ih: "fst (allows (replicate n (t0, t0)) ?tb') = replicate n False"
      using Suc.IH [of ?tb'] Suc.prems z by simp
    show ?thesis
      using Suc.prems z ih by (simp add: Allow_no_time case_prod_beta)
  qed
qed

lemma sequential_admission:
  "0 \<le>s C \<Longrightarrow>
     fst (allows (replicate n (t0, t0)) (NewTokenBucket C r t0)) =
       replicate (min n (nat (sint C))) True @ replicate (n - nat (sint C)) False"
  using sequential_admission_from [of "NewTokenBucket C r t0" t0 n]
  by (simp add: NewTokenBucket_def word_sle_eq)

section \<open>Rate limiter registry: properties\<close>

text \<open>
  C10 (\<^verbatim>\<open>cleanup\<close> changes the map of buckets only: the overrides and the defaults stay,
  so the next admission check of a client whose bucket was evicted creates a new bucket
  that starts full, with the client's override or else the defaults). The buckets that
  stay are as before. For a client that had a bucket and has none after the sweep,
  \<^verbatim>\<open>getBucket\<close> stores a new bucket with the capacity and the refill rate of the limit in
  force, its tokens at the capacity, and the admission check runs on that bucket.
\<close>

theorem cleanup_frame:
  "clientLimits (Cleanup ttl now rl) = clientLimits rl \<and>
   defaultCapacity (Cleanup ttl now rl) = defaultCapacity rl \<and>
   defaultRefillRate (Cleanup ttl now rl) = defaultRefillRate rl \<and>
   (\<forall>c b. buckets (Cleanup ttl now rl) c = Some b \<longrightarrow> buckets rl c = Some b) \<and>
   (\<forall>c. buckets rl c \<noteq> None \<and> buckets (Cleanup ttl now rl) c = None \<longrightarrow>
      (let limit = (case clientLimits rl c of
                      Some l \<Rightarrow> l
                    | None \<Rightarrow> \<lparr>limitCapacity = defaultCapacity rl,
                                limitRefillRate = defaultRefillRate rl\<rparr>);
           fresh = NewTokenBucket (limitCapacity limit) (limitRefillRate limit) tNew
       in Tokens fresh = limitCapacity limit \<and> Capacity fresh = limitCapacity limit \<and>
          RefillRate fresh = limitRefillRate limit \<and>
          getBucket c tNew (Cleanup ttl now rl) =
            (fresh, (Cleanup ttl now rl)\<lparr>buckets := (buckets (Cleanup ttl now rl))(c \<mapsto> fresh)\<rparr>) \<and>
          RateLimiter_Allow c (tNew, tRefill, tSeen) (Cleanup ttl now rl) =
            (fst (TokenBucket_Allow tRefill tSeen fresh),
             (Cleanup ttl now rl)\<lparr>buckets := (buckets (Cleanup ttl now rl))
                                            (c \<mapsto> snd (TokenBucket_Allow tRefill tSeen fresh))\<rparr>)))"
proof -
  have frame: "clientLimits (Cleanup ttl now rl) = clientLimits rl"
    "defaultCapacity (Cleanup ttl now rl) = defaultCapacity rl"
    "defaultRefillRate (Cleanup ttl now rl) = defaultRefillRate rl"
    by (simp_all add: Cleanup_def)
  have kept: "buckets rl c = Some b" if "buckets (Cleanup ttl now rl) c = Some b" for c b
    using that by (auto simp: Cleanup_def split: option.splits if_splits)
  have again: "getBucket c tNew (Cleanup ttl now rl) =
        (NewTokenBucket (limitCapacity limit) (limitRefillRate limit) tNew,
         (Cleanup ttl now rl)\<lparr>buckets := (buckets (Cleanup ttl now rl))
            (c \<mapsto> NewTokenBucket (limitCapacity limit) (limitRefillRate limit) tNew)\<rparr>)"
    if "buckets (Cleanup ttl now rl) c = None"
      and "limit = (case clientLimits rl c of
                      Some l \<Rightarrow> l
                    | None \<Rightarrow> \<lparr>limitCapacity = defaultCapacity rl,
                                limitRefillRate = defaultRefillRate rl\<rparr>)"
    for c limit
    using that by (simp add: getBucket_def frame Let_def split: option.splits)
  show ?thesis
    using kept
    by (auto simp: frame Let_def again RateLimiter_Allow_def NewTokenBucket_def split: prod.splits)
qed

theorem cleanup_frame_witness:
  "buckets \<lparr>buckets = [''10.0.0.1'' \<mapsto> \<lparr>Capacity = 7, Tokens = 0, RefillRate = 2, lastRefill = 0, lastSeen = 0\<rparr>],
            clientLimits = [''10.0.0.1'' \<mapsto> \<lparr>limitCapacity = 7, limitRefillRate = 2\<rparr>],
            defaultCapacity = 5, defaultRefillRate = 1\<rparr> ''10.0.0.1'' \<noteq> None \<and>
   buckets (Cleanup 300000000000 400000000000
      \<lparr>buckets = [''10.0.0.1'' \<mapsto> \<lparr>Capacity = 7, Tokens = 0, RefillRate = 2, lastRefill = 0, lastSeen = 0\<rparr>],
       clientLimits = [''10.0.0.1'' \<mapsto> \<lparr>limitCapacity = 7, limitRefillRate = 2\<rparr>],
       defaultCapacity = 5, defaultRefillRate = 1\<rparr>) ''10.0.0.1'' = None \<and>
   fst (getBucket ''10.0.0.1'' 400000000001 (Cleanup 300000000000 400000000000
      \<lparr>buckets = [''10.0.0.1'' \<mapsto> \<lparr>Capacity = 7, Tokens = 0, RefillRate = 2, lastRefill = 0, lastSeen = 0\<rparr>],
       clientLimits = [''10.0.0.1'' \<mapsto> \<lparr>limitCapacity = 7, limitRefillRate = 2\<rparr>],
       defaultCapacity = 5, defaultRefillRate = 1\<rparr>))
     = \<lparr>Capacity = 7, Tokens = 7, RefillRate = 2, lastRefill = 400000000001, lastSeen = 400000000001\<rparr> \<and>
   clientLimits (Cleanup 300000000000 400000000000
      \<lparr>buckets = [''10.0.0.1'' \<mapsto> \<lparr>Capacity = 7, Tokens = 0, RefillRate = 2, lastRefill = 0, lastSeen = 0\<rparr>],
       clientLimits = [''10.0.0.1'' \<mapsto> \<lparr>limitCapacity = 7, limitRefillRate = 2\<rparr>],
       defaultCapacity = 5, defaultRefillRate = 1\<rparr>) ''10.0.0.1''
     = Some \<lparr>limitCapacity = 7, limitRefillRate = 2\<rparr>"
  using cleanup_frame [of 300000000000 400000000000
      "\<lparr>buckets = [''10.0.0.1'' \<mapsto> \<lparr>Capacity = 7, Tokens = 0, RefillRate = 2, lastRefill = 0, lastSeen = 0\<rparr>],
        clientLimits = [''10.0.0.1'' \<mapsto> \<lparr>limitCapacity = 7, limitRefillRate = 2\<rparr>],
        defaultCapacity = 5, defaultRefillRate = 1\<rparr>" 400000000001 400000000002 400000000003]
  by (simp add: Cleanup_def time_Sub_def Let_def NewTokenBucket_def getBucket_def)

text \<open>Which buckets a sweep evicts, and that a registered override outlives it.\<close>

lemma cleanup_evicts_idle:
  "buckets rl c = Some b \<Longrightarrow>
     (buckets (Cleanup ttl now rl) c = None \<longleftrightarrow> ttl < time_Sub now (lastSeen b))"
  by (simp add: Cleanup_def)

lemma override_survives_cleanup:
  "clientLimits (Cleanup ttl now (SetClientLimit c limit rl)) c = Some limit"
  by (simp add: Cleanup_def SetClientLimit_def)

section \<open>Client identity: properties\<close>

lemma Split_without_separator: "sep \<notin> set s \<Longrightarrow> Split s sep = [s]"
  by (induction s) auto

lemma Split_nonempty: "Split s sep \<noteq> []"
  by (induction s) (auto split: list.splits)

lemma extractClientIP_precedence:
  "extractClientIP r =
     (if Header_Get (Header r) ''X-Real-IP'' \<noteq> [] then TrimSpace (Header_Get (Header r) ''X-Real-IP'')
      else if Header_Get (Header r) ''X-Forwarded-For'' \<noteq> []
      then TrimSpace (Header_Get (Header r) ''X-Forwarded-For'')
      else TrimSpace (remoteHost r))"
  by (simp add: extractClientIP_def Let_def)

lemma identity_functions_agree:
  "Header_Get (Header r) ''X-Real-IP'' \<noteq> [] \<or> CHR '','' \<notin> set (Header_Get (Header r) ''X-Forwarded-For'')
     \<Longrightarrow> extractClientIP r = getClientIP r"
  by (auto simp: extractClientIP_precedence getClientIP_def Split_without_separator)

text \<open>
  C1 (the identifier is the \<^verbatim>\<open>X-Real-IP\<close> header if not empty, else the first
  comma-separated entry of \<^verbatim>\<open>X-Forwarded-For\<close>, else the host of the connection address,
  trimmed; this for the function of the rate-limiter path). A request with no
  \<^verbatim>\<open>X-Real-IP\<close> and the \<^verbatim>\<open>X-Forwarded-For\<close> header \<^verbatim>\<open>203.0.113.7, 10.0.0.2\<close>: the function of
  the rate-limiter path, \<^verbatim>\<open>extractClientIP\<close>, gives the whole header; the function of the
  proxy handler, \<^verbatim>\<open>getClientIP\<close>, gives the first entry.
\<close>

theorem forwarded_for_not_split:
  "extractClientIP \<lparr>Header = [''X-Forwarded-For'' \<mapsto> [''203.0.113.7, 10.0.0.2'']],
                     RemoteAddr = ''10.0.0.1:4711''\<rparr> = ''203.0.113.7, 10.0.0.2'' \<and>
   getClientIP \<lparr>Header = [''X-Forwarded-For'' \<mapsto> [''203.0.113.7, 10.0.0.2'']],
                 RemoteAddr = ''10.0.0.1:4711''\<rparr> = ''203.0.113.7''"
  by (simp add: extractClientIP_def getClientIP_def Header_Get_def TrimSpace_def isSpace_def)

section \<open>Dispatcher: properties\<close>

text \<open>The middleware answers by itself exactly where the limiter refuses.\<close>

lemma middleware_rejects:
  "\<not> fst (RateLimiter_Allow (extractClientIP r) clock rl) \<Longrightarrow>
     RateLimitMiddleware clock next r (rl, s) =
       Inr (http_Error ''Rate limit exceeded'' 429, snd (RateLimiter_Allow (extractClientIP r) clock rl), s)"
  by (cases "RateLimiter_Allow (extractClientIP r) clock rl") (simp add: RateLimitMiddleware_def Let_def)

lemma middleware_passes:
  "fst (RateLimiter_Allow (extractClientIP r) clock rl) \<Longrightarrow>
     RateLimitMiddleware clock next r (rl, s) =
       (case next r s of
          Inl p \<Rightarrow> Inl p
        | Inr (response, s') \<Rightarrow> Inr (response, snd (RateLimiter_Allow (extractClientIP r) clock rl), s'))"
  by (cases "RateLimiter_Allow (extractClientIP r) clock rl")
    (simp add: RateLimitMiddleware_def Let_def split: sum.splits)

text \<open>The two rejections of the proxy handler carry the JSON object with the code 503.\<close>

lemma no_backend_is_json_503:
  "NextAvailableBackend lb = Inr (None, lb') \<Longrightarrow>
     handleProxy roundTrip r lb =
       Inr (\<lparr>StatusCode = 503, ContentType = ''application/json'',
             ResponseBody = JSONBody \<lparr>Code = 503, Message = ''No available backends''\<rparr>\<rparr>, lb')"
  by (simp add: handleProxy_def sendJSONError_def)

lemma transport_error_is_json_503:
  "NextAvailableBackend lb = Inr (Some target, lb') \<Longrightarrow>
   roundTrip (Address (backends lb' ! target)) r = TransportError \<Longrightarrow>
     handleProxy roundTrip r lb =
       Inr (\<lparr>StatusCode = 503, ContentType = ''application/json'',
             ResponseBody = JSONBody \<lparr>Code = 503, Message = ''Backend unavailable''\<rparr>\<rparr>,
            MarkBackendUnhealthy (Address (backends lb' ! target)) lb')"
  by (simp add: handleProxy_def sendJSONError_def)

text \<open>
  C2 (every rejection carries a JSON object with \<^verbatim>\<open>code\<close> and \<^verbatim>\<open>message\<close>: 429 for an
  empty bucket, 503 for no backend alive or a failed forward). A limiter of capacity 1
  and refill rate 1, and two requests of one client at the same instant: the first is
  allowed and empties the bucket; to the second the middleware answers with the status
  429 through \<^verbatim>\<open>http.Error\<close>, whose body is the plain text \<^verbatim>\<open>Rate limit exceeded\<close> and a
  line feed, of content type \<^verbatim>\<open>text/plain\<close>.
\<close>

theorem rate_limit_rejection_is_plain_text:
  "RateLimiter_Allow ''10.0.0.1'' (0, 0, 0) (NewRateLimiter 1 1) =
     (True, \<lparr>buckets = [''10.0.0.1'' \<mapsto> \<lparr>Capacity = 1, Tokens = 0, RefillRate = 1, lastRefill = 0, lastSeen = 0\<rparr>],
             clientLimits = Map.empty, defaultCapacity = 1, defaultRefillRate = 1\<rparr>) \<and>
   RateLimitMiddleware (0, 0, 0) next \<lparr>Header = Map.empty, RemoteAddr = ''10.0.0.1:4711''\<rparr>
     (\<lparr>buckets = [''10.0.0.1'' \<mapsto> \<lparr>Capacity = 1, Tokens = 0, RefillRate = 1, lastRefill = 0, lastSeen = 0\<rparr>],
       clientLimits = Map.empty, defaultCapacity = 1, defaultRefillRate = 1\<rparr>, s) =
     Inr (\<lparr>StatusCode = 429, ContentType = ''text/plain; charset=utf-8'',
           ResponseBody = TextBody (''Rate limit exceeded'' @ [CHR 0x0A])\<rparr>,
          \<lparr>buckets = [''10.0.0.1'' \<mapsto> \<lparr>Capacity = 1, Tokens = 0, RefillRate = 1, lastRefill = 0, lastSeen = 0\<rparr>],
           clientLimits = Map.empty, defaultCapacity = 1, defaultRefillRate = 1\<rparr>, s)"
  by (simp add: RateLimitMiddleware_def RateLimiter_Allow_def getBucket_def NewRateLimiter_def
      NewTokenBucket_def Allow_no_time
      Let_def http_Error_def extractClientIP_def Header_Get_def TrimSpace_def
      isSpace_def remoteHost_def SplitHostPort_def LastIndexByte_def)

end
